theory Spec2Isabelle
  imports Main
begin

section \<open>The file tree, as the plugin sees it\<close>

text \<open>
  The plugin (\<^verbatim>\<open>src/main.ts\<close>, class \<^verbatim>\<open>ParentLink\<close>) reads four fields of a
  \<^verbatim>\<open>TFile\<close> (\<^verbatim>\<open>path\<close>, \<^verbatim>\<open>name\<close>, \<^verbatim>\<open>basename\<close>, \<^verbatim>\<open>parent\<close>) and four
  of a \<^verbatim>\<open>TFolder\<close> (\<^verbatim>\<open>path\<close>, \<^verbatim>\<open>name\<close>, \<^verbatim>\<open>parent\<close>, \<^verbatim>\<open>isRoot()\<close>).
  A folder is only ever read, and compared through its \<^verbatim>\<open>path\<close>, so it is a value.
  A file is also compared by object identity (\<^verbatim>\<open>f !== file\<close>) and owns a metadata
  header: the field \<open>oid\<close> is that identity.
\<close>

datatype TFolder =
  TFolder (folder_path: string) (folder_name: string) (folder_parent: "TFolder option")
    (isRoot: bool)

record TFile =
  oid :: nat
  path :: string
  name :: string
  basename :: string
  parent :: "TFolder option"

text \<open>A value of a frontmatter key; only strings can be \<^verbatim>\<open>===\<close> to a string.\<close>

datatype yaml = YString string | YNumber int | YBool bool | YNull

record ParentLinkSettings =
  enabled :: bool
  detailedLogs :: bool
  lastRefreshedFolder :: "string option"
  allowedPaths :: "string list"

text \<open>
  The plugin object and what it runs on: its settings; the enumeration
  \<^verbatim>\<open>app.vault.getMarkdownFiles()\<close> of the tree snapshot; which invocations of the
  host's metadata writer raise (\<open>writeRaises this i n\<close>: the invocation on the file \<open>i\<close>
  that comes after \<open>n\<close> earlier ones on that file raises, so each call of the writer
  fails or not on its own); and \<^verbatim>\<open>String.prototype.toLowerCase\<close> of the engine. The
  last two are parameters: the general theorems hold whatever they are.
\<close>

record ParentLink =
  settings :: ParentLinkSettings
  getMarkdownFiles :: "TFile list"
  writeRaises :: "nat \<Rightarrow> nat \<Rightarrow> bool"
  toLowerCase :: "string \<Rightarrow> string"

text \<open>The value thrown by the host's metadata writer.\<close>

datatype error = WriteError

text \<open>
  Every call the plugin makes into its host is recorded, in order: \<^verbatim>\<open>console.log\<close>,
  \<^verbatim>\<open>console.error\<close>, \<^verbatim>\<open>new Notice\<close> and
  \<^verbatim>\<open>app.fileManager.processFrontMatter\<close> (with the identity of the file).
\<close>

datatype event =
  ConsoleLog string
| ConsoleError string error
| Notice string
| ProcessFrontMatter nat

text \<open>
  The mutable part of the host: the metadata header of every file (read through
  \<^verbatim>\<open>app.metadataCache.getFileCache(file)?.frontmatter\<close>, written through
  \<^verbatim>\<open>processFrontMatter\<close>; one object for both, as in \<^verbatim>\<open>__mocks__/obsidian.ts\<close>)
  and the calls made so far. A missing cache or header is the empty map: reading
  \<^verbatim>\<open>cache?.frontmatter?.parent\<close> gives \<^verbatim>\<open>undefined\<close> in each of these cases.
\<close>

record host =
  frontmatter :: "nat \<Rightarrow> string \<rightharpoonup> yaml"
  trace :: "event list"

section \<open>String primitives of the language\<close>

text \<open>\<^verbatim>\<open>s.startsWith(p)\<close>\<close>

definition startsWith :: "string \<Rightarrow> string \<Rightarrow> bool" where
  "startsWith s p = (take (length p) s = p)"

text \<open>
  \<^verbatim>\<open>s.replace(pat, rep)\<close> with a string pattern: the first occurrence of \<open>pat\<close>
  is replaced, the rest of \<open>s\<close> is kept. The replacement is taken as it is; the code
  only passes the empty string.
\<close>

fun replace :: "string \<Rightarrow> string \<Rightarrow> string \<Rightarrow> string" where
  "replace [] pat rep = (if pat = [] then rep else [])"
| "replace (c # cs) pat rep =
     (if startsWith (c # cs) pat then rep @ drop (length pat) (c # cs)
      else c # replace cs pat rep)"

section \<open>The host's metadata writer\<close>

text \<open>The invocations of the metadata writer in a trace: the files they were made on.\<close>

fun writes :: "event list \<Rightarrow> nat list" where
  "writes [] = []"
| "writes (ProcessFrontMatter i # es) = i # writes es"
| "writes (e # es) = writes es"

text \<open>How many times the writer has been invoked on the file \<open>i\<close> so far.\<close>

definition attemptsOn :: "host \<Rightarrow> nat \<Rightarrow> nat" where
  "attemptsOn h i = count_list (writes (trace h)) i"

text \<open>
  Modelled from the spec: \<^verbatim>\<open>app.fileManager.processFrontMatter(file, fn)\<close> is a
  primitive of the host application; the repository holds only a mock of it that never
  fails. Following section 6 of the specification, the write applies the mutation \<open>fn\<close> to
  the file's header atomically, and raises on failure, leaving the header as it was. Whether
  it fails is decided call by call: a write that failed may succeed when it is tried again.
  The mutation returns the new header and what it printed.
\<close>

definition processFrontMatter ::
  "ParentLink \<Rightarrow> TFile \<Rightarrow> ((string \<rightharpoonup> yaml) \<Rightarrow> (string \<rightharpoonup> yaml) \<times> event list) \<Rightarrow>
    host \<Rightarrow> error option \<times> host" where
  "processFrontMatter this file fn h =
     (let h1 = h\<lparr>trace := trace h @ [ProcessFrontMatter (oid file)]\<rparr> in
      if writeRaises this (oid file) (attemptsOn h (oid file)) then (Some WriteError, h1)
      else
        (let (fm, printed) = fn (frontmatter h1 (oid file)) in
         (None, h1\<lparr>frontmatter := (frontmatter h1)(oid file := fm),
                   trace := trace h1 @ printed\<rparr>)))"

section \<open>updateParentLink\<close>

text \<open>\<^verbatim>\<open>if (this.settings.detailedLogs) console.log(msg)\<close>\<close>

definition detailedLog :: "ParentLink \<Rightarrow> string \<Rightarrow> host \<Rightarrow> host" where
  "detailedLog this msg h =
     (if detailedLogs (settings this) then h\<lparr>trace := trace h @ [ConsoleLog msg]\<rparr> else h)"

text \<open>
  The test of the allowed paths:
  \<^verbatim>\<open>allowedPaths.some(a => file.path.startsWith(a) || (file.parent?.path || '').startsWith(a))\<close>
\<close>

definition isAllowed :: "ParentLink \<Rightarrow> TFile \<Rightarrow> bool" where
  "isAllowed this file =
     list_ex
       (\<lambda>allowedPath.
          startsWith (path file) allowedPath \<or>
          startsWith (case parent file of None \<Rightarrow> [] | Some p \<Rightarrow> folder_path p) allowedPath)
       (allowedPaths (settings this))"

text \<open>
  The early returns of the resolution part of \<^verbatim>\<open>updateParentLink\<close>, one per
  \<^verbatim>\<open>console.log\<close> message. The last one carries \<^verbatim>\<open>targetFolder\<close>, which is
  \<^verbatim>\<open>undefined\<close> (\<open>None\<close>) for a folder note whose folder has no parent.
\<close>

datatype skip = NoParentFolder | CaseMismatch | NoMatchingParentNote "string option"

fun skipMessage :: "skip \<Rightarrow> string" where
  "skipMessage NoParentFolder = ''skipped (no parent folder)''"
| "skipMessage CaseMismatch =
     ''skipped (folder note name case doesn'' @ [CHR 0x27] @ ''t match folder name)''"
| "skipMessage (NoMatchingParentNote targetFolder) =
     ''skipped (no matching parent note for folder '' @
       (case targetFolder of None \<Rightarrow> ''undefined'' | Some n \<Rightarrow> n) @ '')''"

text \<open>
  The predicate of both \<^verbatim>\<open>find\<close> calls:
  \<^verbatim>\<open>f.basename === folder.name && f.parent?.path === folder.path && f !== file\<close>
\<close>

definition isNoteOf :: "TFolder \<Rightarrow> TFile \<Rightarrow> TFile \<Rightarrow> bool" where
  "isNoteOf folder file f =
     (basename f = folder_name folder \<and>
      map_option folder_path (parent f) = Some (folder_path folder) \<and>
      oid f \<noteq> oid file)"

text \<open>
  The resolution part of \<^verbatim>\<open>updateParentLink\<close>, from \<^verbatim>\<open>const parentFolder = file.parent\<close>
  to the test \<^verbatim>\<open>if (!parentNote)\<close>: it either returns early or leaves the note found in
  \<^verbatim>\<open>parentNote\<close>.
\<close>

definition resolveParentNote :: "ParentLink \<Rightarrow> TFile \<Rightarrow> skip + TFile" where
  "resolveParentNote this file =
     (case parent file of
        None \<Rightarrow> Inl NoParentFolder
      | Some parentFolder \<Rightarrow>
          (let isFolderNote = (basename file = folder_name parentFolder) in
           if toLowerCase this (basename file) = toLowerCase this (folder_name parentFolder) \<and>
              \<not> isFolderNote
           then Inl CaseMismatch
           else
             (let parentNote =
                (if isFolderNote then
                   (case folder_parent parentFolder of
                      Some grandparentFolder \<Rightarrow>
                        find (isNoteOf grandparentFolder file) (getMarkdownFiles this)
                    | None \<Rightarrow> None)
                 else find (isNoteOf parentFolder file) (getMarkdownFiles this))
              in
              case parentNote of
                None \<Rightarrow>
                  Inl (NoMatchingParentNote
                    (if isFolderNote then map_option folder_name (folder_parent parentFolder)
                     else Some (folder_name parentFolder)))
              | Some n \<Rightarrow> Inr n)))"

text \<open>\<^verbatim>\<open>const newParent = "[[" + parentNote.name.replace('.md', '') + "]]"\<close>\<close>

definition newParent :: "TFile \<Rightarrow> string" where
  "newParent parentNote = ''[['' @ replace (name parentNote) ''.md'' [] @ '']]''"

text \<open>
  The body of the \<^verbatim>\<open>try\<close> block. The first component of the result is the exception
  that left the block, if any.
\<close>

definition tryBody :: "ParentLink \<Rightarrow> TFile \<Rightarrow> host \<Rightarrow> error option \<times> host" where
  "tryBody this file h =
     (if 0 < length (allowedPaths (settings this)) \<and> \<not> isAllowed this file
      then (None, detailedLog this (path file @ '' - skipped (not in allowed paths)'') h)
      else
        (case resolveParentNote this file of
           Inl s \<Rightarrow> (None, detailedLog this (path file @ '' - '' @ skipMessage s) h)
         | Inr parentNote \<Rightarrow>
             (let currentParent = frontmatter h (oid file) ''parent'' in
              if currentParent \<noteq> Some (YString (newParent parentNote)) then
                processFrontMatter this file
                  (\<lambda>fm. (fm(''parent'' \<mapsto> YString (newParent parentNote)),
                         if detailedLogs (settings this)
                         then [ConsoleLog (path file @ '' - frontmatter updated with parent: ''
                                 @ newParent parentNote)]
                         else []))
                  h
              else
                (None,
                 detailedLog this (path file @ '' - skipped (parent already set correctly)'')
                   h))))"

text \<open>\<^verbatim>\<open>try { ... } catch (error) { console.error(...); new Notice(...) }\<close>\<close>

definition updateParentLink :: "ParentLink \<Rightarrow> TFile \<Rightarrow> host \<Rightarrow> host" where
  "updateParentLink this file h =
     (case tryBody this file h of
        (None, h') \<Rightarrow> h'
      | (Some err, h') \<Rightarrow>
          h'\<lparr>trace := trace h' @
            [ConsoleError (path file @ '' - error updating parent link:'') err,
             Notice (''Error updating parent link for '' @ path file)]\<rparr>)"

section \<open>handleFolderRename\<close>

text \<open>
  \<^verbatim>\<open>getMarkdownFiles().filter(f => folder.isRoot() ? true : f.path.startsWith(folder.path + '/'))\<close>
\<close>

definition filesInFolder :: "ParentLink \<Rightarrow> TFolder \<Rightarrow> TFile list" where
  "filesInFolder this folder =
     filter (\<lambda>f. if isRoot folder then True else startsWith (path f) (folder_path folder @ ''/''))
       (getMarkdownFiles this)"

text \<open>\<^verbatim>\<open>for (const childFile of filesInFolder) await this.updateParentLink(childFile)\<close>\<close>

fun updateEach :: "ParentLink \<Rightarrow> TFile list \<Rightarrow> host \<Rightarrow> host" where
  "updateEach this [] h = h"
| "updateEach this (childFile # rest) h = updateEach this rest (updateParentLink this childFile h)"

text \<open>
  \<^verbatim>\<open>getMarkdownFiles().find(f => f.basename === folder.name && f.parent?.path === folder.path)\<close>
\<close>

definition folderNote :: "ParentLink \<Rightarrow> TFolder \<Rightarrow> TFile option" where
  "folderNote this folder =
     find (\<lambda>f. basename f = folder_name folder \<and>
               map_option folder_path (parent f) = Some (folder_path folder))
       (getMarkdownFiles this)"

definition handleFolderRename :: "ParentLink \<Rightarrow> TFolder \<Rightarrow> host \<Rightarrow> host" where
  "handleFolderRename this folder h =
     (let h1 = detailedLog this
                 (''Folder renamed/modified: '' @ folder_path folder @
                  '', updating all files inside'') h;
          h2 = updateEach this (filesInFolder this folder) h1
      in
      if \<not> isRoot folder then
        (case folderNote this folder of
           Some note \<Rightarrow>
             updateParentLink this note
               (detailedLog this (''Updating folder note: '' @ path note) h2)
         | None \<Rightarrow> h2)
      else h2)"

text \<open>
  The arguments of the calls of \<^verbatim>\<open>updateParentLink\<close> that \<^verbatim>\<open>handleFolderRename\<close>
  makes, in the order it makes them: the loop over \<^verbatim>\<open>filesInFolder\<close>, then the folder
  note.
\<close>

definition cascadeCalls :: "ParentLink \<Rightarrow> TFolder \<Rightarrow> TFile list" where
  "cascadeCalls this folder =
     filesInFolder this folder @
     (if \<not> isRoot folder then
        (case folderNote this folder of Some note \<Rightarrow> [note] | None \<Rightarrow> [])
      else [])"

section \<open>Observing a run\<close>

text \<open>The test of the allowed paths lets the file through.\<close>

definition inScope :: "ParentLink \<Rightarrow> TFile \<Rightarrow> bool" where
  "inScope this file =
     (\<not> (0 < length (allowedPaths (settings this)) \<and> \<not> isAllowed this file))"

text \<open>The note that the resolution part leaves in \<^verbatim>\<open>parentNote\<close>, if it does not return.\<close>

definition resolvedParent :: "ParentLink \<Rightarrow> TFile \<Rightarrow> TFile option" where
  "resolvedParent this file =
     (case resolveParentNote this file of Inl s \<Rightarrow> None | Inr n \<Rightarrow> Some n)"

text \<open>
  The value that \<^verbatim>\<open>updateParentLink\<close> compares the \<^verbatim>\<open>parent\<close> field with, when it gets
  that far: \<^verbatim>\<open>newParent\<close> of the note found.
\<close>

definition desired :: "ParentLink \<Rightarrow> TFile \<Rightarrow> string option" where
  "desired this file =
     (if inScope this file then map_option newParent (resolvedParent this file) else None)"

text \<open>A trace without its \<^verbatim>\<open>console.log\<close> lines.\<close>

fun withoutLogs :: "event list \<Rightarrow> event list" where
  "withoutLogs [] = []"
| "withoutLogs (ConsoleLog msg # es) = withoutLogs es"
| "withoutLogs (e # es) = e # withoutLogs es"

text \<open>
  Two states of the host with the same headers and, apart from \<^verbatim>\<open>console.log\<close>
  lines, the same calls so far.
\<close>

definition sameEffect :: "host \<Rightarrow> host \<Rightarrow> bool" where
  "sameEffect h h' =
     (frontmatter h = frontmatter h' \<and> withoutLogs (trace h) = withoutLogs (trace h'))"

text \<open>
  The \<^verbatim>\<open>parent\<close> field of the document holds the wanted link, when there is one: a call
  has nothing left to write.
\<close>

definition settled :: "ParentLink \<Rightarrow> TFile \<Rightarrow> host \<Rightarrow> bool" where
  "settled this d h =
     (case desired this d of
        None \<Rightarrow> True
      | Some v \<Rightarrow> frontmatter h (oid d) ''parent'' = Some (YString v))"

text \<open>The same plugin on a host whose writer never raises for the file \<open>i\<close>.\<close>

definition neverRaisingFor :: "nat \<Rightarrow> ParentLink \<Rightarrow> ParentLink" where
  "neverRaisingFor i this = this\<lparr>writeRaises := (writeRaises this)(i := (\<lambda>n. False))\<rparr>"

text \<open>
  Two states of the host that agree, on every file but \<open>j\<close>, on the header and on the
  number of writes tried so far.
\<close>

definition agreeOff :: "nat \<Rightarrow> host \<Rightarrow> host \<Rightarrow> bool" where
  "agreeOff j h h' =
     (\<forall>i. i \<noteq> j \<longrightarrow> frontmatter h i = frontmatter h' i \<and> attemptsOn h i = attemptsOn h' i)"

section \<open>The specification's notions\<close>

text \<open>
  ``The first document in enumeration order with property \<open>P\<close>'': \<open>r\<close> is that document,
  or \<open>None\<close> when no document has the property.
\<close>

definition firstInOrder :: "'a list \<Rightarrow> ('a \<Rightarrow> bool) \<Rightarrow> 'a option \<Rightarrow> bool" where
  "firstInOrder xs P r =
     (case r of
        None \<Rightarrow> \<not> list_ex P xs
      | Some f \<Rightarrow> (\<exists>i < length xs. xs ! i = f \<and> P f \<and> (\<forall>j < i. \<not> P (xs ! j))))"

text \<open>
  ``The containing folder of \<open>f\<close> is \<open>folder\<close>''. The specification identifies a folder by
  its path.
\<close>

definition containedIn :: "TFile \<Rightarrow> TFolder \<Rightarrow> bool" where
  "containedIn f folder =
     (case parent f of None \<Rightarrow> False | Some q \<Rightarrow> folder_path q = folder_path folder)"

text \<open>
  The scope of the allowed paths in the specification's words: the list is empty, or the
  path of the document starts with some entry, or the path of its containing folder does.
\<close>

definition isInScope :: "string list \<Rightarrow> TFile \<Rightarrow> bool" where
  "isInScope allowList d =
     (allowList = [] \<or>
      list_ex (\<lambda>a. startsWith (path d) a) allowList \<or>
      (case parent d of
         None \<Rightarrow> False
       | Some pf \<Rightarrow> list_ex (\<lambda>a. startsWith (folder_path pf) a) allowList))"

section \<open>A small vault\<close>

text \<open>
  The lowering of the examples. All their names are made of ASCII characters, and on such
  strings \<^verbatim>\<open>toLowerCase\<close> lowers the letters \<open>A\<close> to \<open>Z\<close> and leaves the rest.
\<close>

definition lowerChar :: "char \<Rightarrow> char" where
  "lowerChar c =
     (case map_of (zip ''ABCDEFGHIJKLMNOPQRSTUVWXYZ'' ''abcdefghijklmnopqrstuvwxyz'') c of
        Some l \<Rightarrow> l
      | None \<Rightarrow> c)"

definition lowerASCII :: "string \<Rightarrow> string" where
  "lowerASCII s = map lowerChar s"

text \<open>
  The trees of the test suite: folders made by \<^verbatim>\<open>createFolder\<close> have no parent unless
  one is assigned, and a file at the top level has none.
\<close>

definition exProjects :: TFolder where
  "exProjects = TFolder ''Projects'' ''Projects'' None False"

definition exSub :: TFolder where
  "exSub = TFolder ''Projects/Sub'' ''Sub'' (Some exProjects) False"

definition projectsNote :: TFile where
  "projectsNote = \<lparr>oid = 0, path = ''Projects/Projects.md'', name = ''Projects.md'',
     basename = ''Projects'', parent = Some exProjects\<rparr>"

definition taskNote :: TFile where
  "taskNote = \<lparr>oid = 1, path = ''Projects/Task.md'', name = ''Task.md'',
     basename = ''Task'', parent = Some exProjects\<rparr>"

definition subNote :: TFile where
  "subNote = \<lparr>oid = 2, path = ''Projects/Sub/Sub.md'', name = ''Sub.md'',
     basename = ''Sub'', parent = Some exSub\<rparr>"

definition shoutNote :: TFile where
  "shoutNote = \<lparr>oid = 3, path = ''Projects/PROJECTS.md'', name = ''PROJECTS.md'',
     basename = ''PROJECTS'', parent = Some exProjects\<rparr>"

definition rootNote :: TFile where
  "rootNote = \<lparr>oid = 4, path = ''Root.md'', name = ''Root.md'',
     basename = ''Root'', parent = None\<rparr>"

definition exSettings :: ParentLinkSettings where
  "exSettings = \<lparr>enabled = True, detailedLogs = True, lastRefreshedFolder = None,
     allowedPaths = []\<rparr>"

definition exPlugin :: ParentLink where
  "exPlugin = \<lparr>settings = exSettings,
     getMarkdownFiles = [projectsNote, taskNote, subNote, shoutNote, rootNote],
     writeRaises = (\<lambda>i n. False), toLowerCase = lowerASCII\<rparr>"

text \<open>
  The same plugin on a host whose writer raises for \<^verbatim>\<open>Projects/Task.md\<close> every time,
  and on one whose writer raises for it the first time only.
\<close>

definition exFailing :: ParentLink where
  "exFailing = exPlugin\<lparr>writeRaises := (\<lambda>i n. i = 1)\<rparr>"

definition exFlaky :: ParentLink where
  "exFlaky = exPlugin\<lparr>writeRaises := (\<lambda>i n. i = 1 \<and> n = 0)\<rparr>"

text \<open>The same plugin with the allowed paths \<^verbatim>\<open>["Projects/Sub"]\<close>.\<close>

definition exGated :: ParentLink where
  "exGated = exPlugin\<lparr>settings := exSettings\<lparr>allowedPaths := [''Projects/Sub'']\<rparr>\<rparr>"

text \<open>No file has a header yet, and nothing has been called.\<close>

definition h0 :: host where
  "h0 = \<lparr>frontmatter = (\<lambda>i. Map.empty), trace = []\<rparr>"

text \<open>
  A folder whose name contains \<^verbatim>\<open>.md\<close> before its end, with its folder note and one
  more note.
\<close>

definition exDocs :: TFolder where
  "exDocs = TFolder ''docs.mdx'' ''docs.mdx'' None False"

definition docsNote :: TFile where
  "docsNote = \<lparr>oid = 0, path = ''docs.mdx/docs.mdx.md'', name = ''docs.mdx.md'',
     basename = ''docs.mdx'', parent = Some exDocs\<rparr>"

definition introNote :: TFile where
  "introNote = \<lparr>oid = 1, path = ''docs.mdx/Intro.md'', name = ''Intro.md'',
     basename = ''Intro'', parent = Some exDocs\<rparr>"

definition exDocsPlugin :: ParentLink where
  "exDocsPlugin = \<lparr>settings = exSettings, getMarkdownFiles = [docsNote, introNote],
     writeRaises = (\<lambda>i n. False), toLowerCase = lowerASCII\<rparr>"

section \<open>Facts about single calls\<close>

lemmas ex_defs = exProjects_def exSub_def projectsNote_def taskNote_def subNote_def shoutNote_def
  rootNote_def exSettings_def exPlugin_def exFailing_def exFlaky_def exGated_def h0_def exDocs_def
  docsNote_def introNote_def exDocsPlugin_def

lemmas code_defs = updateParentLink_def tryBody_def resolveParentNote_def isNoteOf_def
  newParent_def processFrontMatter_def detailedLog_def isAllowed_def startsWith_def
  lowerASCII_def lowerChar_def attemptsOn_def handleFolderRename_def filesInFolder_def folderNote_def
  cascadeCalls_def

lemmas obs_defs = inScope_def resolvedParent_def desired_def

lemma writes_append [simp]: "writes (xs @ ys) = writes xs @ writes ys"
  by (induction xs rule: writes.induct) auto

lemma frontmatter_detailedLog [simp]: "frontmatter (detailedLog this msg h) = frontmatter h"
  by (simp add: detailedLog_def)

lemma writes_detailedLog [simp]: "writes (trace (detailedLog this msg h)) = writes (trace h)"
  by (simp add: detailedLog_def)

text \<open>What a call does to the headers, and which writes it adds to the trace.\<close>

lemma frontmatter_updateParentLink:
  "frontmatter (updateParentLink this file h) =
     (case desired this file of
        None \<Rightarrow> frontmatter h
      | Some v \<Rightarrow>
          if frontmatter h (oid file) ''parent'' \<noteq> Some (YString v) \<and>
             \<not> writeRaises this (oid file) (attemptsOn h (oid file))
          then (frontmatter h)(oid file := (frontmatter h (oid file))(''parent'' \<mapsto> YString v))
          else frontmatter h)"
  by (auto simp: updateParentLink_def tryBody_def obs_defs processFrontMatter_def
      Let_def split: sum.splits)

lemma writes_updateParentLink:
  "writes (trace (updateParentLink this file h)) =
     writes (trace h) @
     (case desired this file of
        None \<Rightarrow> []
      | Some v \<Rightarrow>
          if frontmatter h (oid file) ''parent'' \<noteq> Some (YString v) then [oid file] else [])"
  by (auto simp: updateParentLink_def tryBody_def obs_defs processFrontMatter_def
      Let_def split: sum.splits)


section \<open>C1: a second call\<close>




section \<open>C2: which note is the parent\<close>

lemma firstInOrder_find: "firstInOrder xs P (find P xs)"
proof (cases "find P xs")
  case None
  then have "\<not> (\<exists>x. x \<in> set xs \<and> P x)"
    by (simp add: find_None_iff)
  then show ?thesis
    using None by (simp add: firstInOrder_def list_ex_iff)
next
  case (Some x)
  then have "\<exists>i<length xs. P (xs ! i) \<and> x = xs ! i \<and> (\<forall>j<i. \<not> P (xs ! j))"
    by (simp add: find_Some_iff)
  then show ?thesis
    using Some by (auto simp: firstInOrder_def)
qed

lemma isNoteOf_containedIn:
  "isNoteOf folder file =
     (\<lambda>f. basename f = folder_name folder \<and> containedIn f folder \<and> oid f \<noteq> oid file)"
  by (auto simp: isNoteOf_def containedIn_def fun_eq_iff split: option.splits)

text \<open>
  C2 (parent targeting): let \<open>d\<close> be a document with containing folder \<open>pf\<close>. If \<open>d\<close>
  is a folder note (its base name is exactly the name of \<open>pf\<close>) and \<open>pf\<close> has a parent
  folder \<open>gp\<close>, the resolved parent is the first document \<open>f\<close> in enumeration order
  whose base name is the name of \<open>gp\<close>, whose containing folder is \<open>gp\<close> and which is
  not \<open>d\<close> (and there is no resolved parent when no document is such). If \<open>d\<close> is not a
  folder note, and not one up to case either (the two names differ once lowered by
  \<^verbatim>\<open>toLowerCase\<close>, whatever that function does), the same holds with \<open>pf\<close> in
  the place of \<open>gp\<close>.
\<close>

theorem parent_targeting:
  assumes "parent d = Some pf"
  shows "(basename d = folder_name pf \<longrightarrow>
            (\<forall>gp. folder_parent pf = Some gp \<longrightarrow>
               firstInOrder (getMarkdownFiles this)
                 (\<lambda>f. basename f = folder_name gp \<and> containedIn f gp \<and> oid f \<noteq> oid d)
                 (resolvedParent this d))) \<and>
         (basename d \<noteq> folder_name pf \<and>
          toLowerCase this (basename d) \<noteq> toLowerCase this (folder_name pf) \<longrightarrow>
            firstInOrder (getMarkdownFiles this)
              (\<lambda>f. basename f = folder_name pf \<and> containedIn f pf \<and> oid f \<noteq> oid d)
              (resolvedParent this d))"
proof (intro conjI impI allI)
  fix gp
  assume fn: "basename d = folder_name pf" and gp: "folder_parent pf = Some gp"
  have "resolvedParent this d = find (isNoteOf gp d) (getMarkdownFiles this)"
    using assms fn gp
    by (simp add: resolvedParent_def resolveParentNote_def split: option.splits)
  then show "firstInOrder (getMarkdownFiles this)
      (\<lambda>f. basename f = folder_name gp \<and> containedIn f gp \<and> oid f \<noteq> oid d)
      (resolvedParent this d)"
    using firstInOrder_find [of "getMarkdownFiles this" "isNoteOf gp d"]
    by (simp add: isNoteOf_containedIn)
next
  assume "basename d \<noteq> folder_name pf \<and>
          toLowerCase this (basename d) \<noteq> toLowerCase this (folder_name pf)"
  then have "resolvedParent this d = find (isNoteOf pf d) (getMarkdownFiles this)"
    using assms
    by (simp add: resolvedParent_def resolveParentNote_def split: option.splits)
  then show "firstInOrder (getMarkdownFiles this)
      (\<lambda>f. basename f = folder_name pf \<and> containedIn f pf \<and> oid f \<noteq> oid d)
      (resolvedParent this d)"
    using firstInOrder_find [of "getMarkdownFiles this" "isNoteOf pf d"]
    by (simp add: isNoteOf_containedIn)
qed

theorem parent_targeting_witness:
  "parent subNote = Some exSub \<and> basename subNote = folder_name exSub \<and>
   folder_parent exSub = Some exProjects \<and>
   resolvedParent exPlugin subNote = Some projectsNote \<and>
   firstInOrder (getMarkdownFiles exPlugin)
     (\<lambda>f. basename f = folder_name exProjects \<and> containedIn f exProjects \<and>
          oid f \<noteq> oid subNote)
     (Some projectsNote) \<and>
   parent taskNote = Some exProjects \<and> basename taskNote \<noteq> folder_name exProjects \<and>
   toLowerCase exPlugin (basename taskNote) \<noteq> toLowerCase exPlugin (folder_name exProjects) \<and>
   resolvedParent exPlugin taskNote = Some projectsNote \<and>
   firstInOrder (getMarkdownFiles exPlugin)
     (\<lambda>f. basename f = folder_name exProjects \<and> containedIn f exProjects \<and>
          oid f \<noteq> oid taskNote)
     (Some projectsNote)"
proof -
  have a: "parent subNote = Some exSub" "basename subNote = folder_name exSub"
    "folder_parent exSub = Some exProjects"
    by (simp_all add: ex_defs)
  have b: "resolvedParent exPlugin subNote = Some projectsNote"
    by (simp add: ex_defs code_defs obs_defs)
  have c: "parent taskNote = Some exProjects" "basename taskNote \<noteq> folder_name exProjects"
    "toLowerCase exPlugin (basename taskNote) \<noteq> toLowerCase exPlugin (folder_name exProjects)"
    by (simp_all add: ex_defs code_defs)
  have d: "resolvedParent exPlugin taskNote = Some projectsNote"
    by (simp add: ex_defs code_defs obs_defs)
  show ?thesis
    using a b c d parent_targeting [OF a(1), of exPlugin]
      parent_targeting [OF c(1), of exPlugin]
    by simp
qed

section \<open>C3: the allowed paths\<close>

lemma startsWith_Nil [simp]: "startsWith [] a \<longleftrightarrow> a = []" "startsWith s []"
  by (auto simp: startsWith_def)

lemma startsWith_empty: "startsWith [] a \<Longrightarrow> startsWith s a"
  by (simp add: startsWith_def)

text \<open>The test in the code and the scope in the specification's words agree.\<close>

lemma inScope_isInScope: "inScope this d \<longleftrightarrow> isInScope (allowedPaths (settings this)) d"
proof (cases "parent d")
  case None
  have "(\<exists>a\<in>set as. startsWith (path d) a \<or> startsWith [] a) \<longleftrightarrow>
        (\<exists>a\<in>set as. startsWith (path d) a)" for as
    using startsWith_empty [of _ "path d"] by blast
  then show ?thesis
    using None by (auto simp: inScope_def isAllowed_def isInScope_def list_ex_iff)
next
  case (Some pf)
  then show ?thesis
    by (auto simp: inScope_def isAllowed_def isInScope_def list_ex_iff)
qed

lemma updateParentLink_gate_closed:
  "\<not> inScope this d \<Longrightarrow>
     updateParentLink this d h =
       detailedLog this (path d @ '' - skipped (not in allowed paths)'') h"
  by (simp add: updateParentLink_def tryBody_def inScope_def)

lemma updateParentLink_gate_open:
  "inScope this d \<Longrightarrow>
     updateParentLink this d h =
       updateParentLink (this\<lparr>settings := (settings this)\<lparr>allowedPaths := []\<rparr>\<rparr>) d h"
proof -
  let ?p = "this\<lparr>settings := (settings this)\<lparr>allowedPaths := []\<rparr>\<rparr>"
  assume "inScope this d"
  then have gate: "\<not> (0 < length (allowedPaths (settings this)) \<and> \<not> isAllowed this d)"
    by (simp add: inScope_def)
  have same: "resolveParentNote ?p d = resolveParentNote this d"
    "\<And>msg. detailedLog ?p msg h = detailedLog this msg h"
    "\<And>fn. processFrontMatter ?p d fn h = processFrontMatter this d fn h"
    by (simp_all add: resolveParentNote_def detailedLog_def processFrontMatter_def
        cong: option.case_cong if_cong)
  have "tryBody ?p d h = tryBody this d h"
    using gate by (auto simp: tryBody_def same Let_def cong: sum.case_cong if_cong)
  then show ?thesis
    by (simp add: updateParentLink_def)
qed

text \<open>
  C3 (allow-list gating): with an empty list of allowed paths every document is in scope.
  A document in scope is processed as it would be with no restriction at all. A document
  out of scope (neither its path nor the path of its containing folder starts with an
  entry of a non-empty list) makes \<^verbatim>\<open>updateParentLink\<close> return at once: only the
  message of the skip is printed, no write is made and no metadata changes, whatever the
  tree holds.
\<close>

theorem allow_list_gating:
  "(allowedPaths (settings this) = [] \<longrightarrow> isInScope (allowedPaths (settings this)) d) \<and>
   (isInScope (allowedPaths (settings this)) d \<longrightarrow>
      updateParentLink this d h =
        updateParentLink (this\<lparr>settings := (settings this)\<lparr>allowedPaths := []\<rparr>\<rparr>) d h) \<and>
   (\<not> isInScope (allowedPaths (settings this)) d \<longrightarrow>
      updateParentLink this d h =
        detailedLog this (path d @ '' - skipped (not in allowed paths)'') h \<and>
      frontmatter (updateParentLink this d h) = frontmatter h \<and>
      writes (trace (updateParentLink this d h)) = writes (trace h))"
proof (intro conjI impI)
  show "isInScope (allowedPaths (settings this)) d" if "allowedPaths (settings this) = []"
    using that by (simp add: isInScope_def)
  show "updateParentLink this d h =
        updateParentLink (this\<lparr>settings := (settings this)\<lparr>allowedPaths := []\<rparr>\<rparr>) d h"
    if "isInScope (allowedPaths (settings this)) d"
    using that by (simp add: inScope_isInScope [symmetric] updateParentLink_gate_open)
  assume "\<not> isInScope (allowedPaths (settings this)) d"
  then have closed: "\<not> inScope this d"
    by (simp add: inScope_isInScope)
  show "updateParentLink this d h =
        detailedLog this (path d @ '' - skipped (not in allowed paths)'') h"
    using closed by (rule updateParentLink_gate_closed)
  then show "frontmatter (updateParentLink this d h) = frontmatter h"
    "writes (trace (updateParentLink this d h)) = writes (trace h)"
    by simp_all
qed

theorem allow_list_gating_witness:
  "isInScope (allowedPaths (settings exGated)) subNote \<and>
   frontmatter (updateParentLink exGated subNote h0) (oid subNote) ''parent'' =
     Some (YString ''[[Projects]]'') \<and>
   \<not> isInScope (allowedPaths (settings exGated)) taskNote \<and>
   resolvedParent exGated taskNote = Some projectsNote \<and>
   frontmatter (updateParentLink exGated taskNote h0) = frontmatter h0 \<and>
   trace (updateParentLink exGated taskNote h0) =
     [ConsoleLog ''Projects/Task.md - skipped (not in allowed paths)'']"
proof -
  have a: "isInScope (allowedPaths (settings exGated)) subNote"
    by (simp add: ex_defs isInScope_def startsWith_def)
  have b: "\<not> isInScope (allowedPaths (settings exGated)) taskNote"
    by (simp add: ex_defs isInScope_def startsWith_def)
  have c: "resolvedParent exGated taskNote = Some projectsNote"
    by (simp add: ex_defs code_defs obs_defs)
  have d: "frontmatter (updateParentLink
      (exGated\<lparr>settings := (settings exGated)\<lparr>allowedPaths := []\<rparr>\<rparr>) subNote h0)
      (oid subNote) ''parent'' = Some (YString ''[[Projects]]'')"
    by (simp add: ex_defs code_defs)
  have e: "trace (detailedLog exGated (path taskNote @ '' - skipped (not in allowed paths)'') h0)
     = [ConsoleLog ''Projects/Task.md - skipped (not in allowed paths)'']"
    by (simp add: ex_defs code_defs)
  show ?thesis
    using a b c d e allow_list_gating [of exGated subNote h0]
      allow_list_gating [of exGated taskNote h0]
    by simp
qed

section \<open>The early returns of the resolution\<close>

lemma updateParentLink_skip:
  "resolveParentNote this d = Inl s \<Longrightarrow>
     frontmatter (updateParentLink this d h) = frontmatter h \<and>
     writes (trace (updateParentLink this d h)) = writes (trace h)"
  by (simp add: frontmatter_updateParentLink writes_updateParentLink obs_defs)

lemma updateParentLink_skip_in_scope:
  "inScope this d \<Longrightarrow> resolveParentNote this d = Inl s \<Longrightarrow>
     updateParentLink this d h = detailedLog this (path d @ '' - '' @ skipMessage s) h"
  by (auto simp: updateParentLink_def tryBody_def inScope_def)

section \<open>C4: a name that matches up to case\<close>

text \<open>
  C4 (case-mismatch guard): when the base name of a document and the name of its containing
  folder are equal once lowered by \<^verbatim>\<open>toLowerCase\<close> (whatever that function does) but
  not equal as they are, the resolution returns with the
  message of the case mismatch, whatever other documents the tree holds;
  \<^verbatim>\<open>updateParentLink\<close> makes no write and changes no metadata, so a \<^verbatim>\<open>parent\<close> field
  that was unset stays unset.
\<close>

theorem case_mismatch_guard:
  assumes "parent d = Some pf"
    and "toLowerCase this (basename d) = toLowerCase this (folder_name pf)"
    and "basename d \<noteq> folder_name pf"
  shows "resolveParentNote this d = Inl CaseMismatch \<and>
         frontmatter (updateParentLink this d h) = frontmatter h \<and>
         writes (trace (updateParentLink this d h)) = writes (trace h) \<and>
         (frontmatter h (oid d) ''parent'' = None \<longrightarrow>
            frontmatter (updateParentLink this d h) (oid d) ''parent'' = None)"
proof -
  have skip: "resolveParentNote this d = Inl CaseMismatch"
    using assms by (simp add: resolveParentNote_def)
  then show ?thesis
    using updateParentLink_skip [OF skip, of h] by simp
qed

theorem case_mismatch_guard_witness:
  "parent shoutNote = Some exProjects \<and>
   toLowerCase exPlugin (basename shoutNote) = toLowerCase exPlugin (folder_name exProjects) \<and>
   basename shoutNote \<noteq> folder_name exProjects \<and>
   projectsNote \<in> set (getMarkdownFiles exPlugin) \<and>
   resolveParentNote exPlugin shoutNote = Inl CaseMismatch \<and>
   frontmatter (updateParentLink exPlugin shoutNote h0) = frontmatter h0 \<and>
   writes (trace (updateParentLink exPlugin shoutNote h0)) = [] \<and>
   frontmatter (updateParentLink exPlugin shoutNote h0) (oid shoutNote) ''parent'' = None"
proof -
  have a: "parent shoutNote = Some exProjects"
    "toLowerCase exPlugin (basename shoutNote) = toLowerCase exPlugin (folder_name exProjects)"
    "basename shoutNote \<noteq> folder_name exProjects"
    by (simp_all add: ex_defs code_defs)
  have b: "projectsNote \<in> set (getMarkdownFiles exPlugin)"
    "frontmatter h0 (oid shoutNote) ''parent'' = None" "writes (trace h0) = []"
    by (simp_all add: exPlugin_def h0_def)
  show ?thesis
    using a b case_mismatch_guard [OF a, of h0] by simp
qed

section \<open>C8: documents with no containing folder\<close>

text \<open>
  C8 (root documents never linked): for a document with no containing folder, and any
  tree, the resolution finds no parent and returns with the reason ``no parent folder''
  (this is the message printed when the document is in scope); no write is made and no
  metadata changes.
\<close>

theorem root_documents_never_linked:
  assumes "parent d = None"
  shows "resolveParentNote this d = Inl NoParentFolder \<and>
         resolvedParent this d = None \<and>
         frontmatter (updateParentLink this d h) = frontmatter h \<and>
         writes (trace (updateParentLink this d h)) = writes (trace h) \<and>
         (inScope this d \<longrightarrow>
            updateParentLink this d h =
              detailedLog this (path d @ '' - skipped (no parent folder)'') h)"
proof -
  have skip: "resolveParentNote this d = Inl NoParentFolder"
    using assms by (simp add: resolveParentNote_def)
  then show ?thesis
    using updateParentLink_skip [OF skip, of h] updateParentLink_skip_in_scope [OF _ skip, of h]
    by (simp add: resolvedParent_def)
qed

theorem root_documents_never_linked_witness:
  "parent rootNote = None \<and> inScope exPlugin rootNote \<and>
   resolveParentNote exPlugin rootNote = Inl NoParentFolder \<and>
   frontmatter (updateParentLink exPlugin rootNote h0) = frontmatter h0 \<and>
   trace (updateParentLink exPlugin rootNote h0) =
     [ConsoleLog ''Root.md - skipped (no parent folder)'']"
proof -
  have a: "parent rootNote = None"
    by (simp add: ex_defs)
  have b: "inScope exPlugin rootNote"
    by (simp add: ex_defs inScope_def)
  have c: "trace (detailedLog exPlugin (path rootNote @ '' - skipped (no parent folder)'') h0) =
     [ConsoleLog ''Root.md - skipped (no parent folder)'']"
    by (simp add: ex_defs detailedLog_def)
  show ?thesis
    using a b c root_documents_never_linked [OF a, of exPlugin h0] by simp
qed

section \<open>C9: a folder note whose folder has no parent\<close>

text \<open>
  C9 says that a folder note whose containing folder has no parent folder is skipped with
  the reason ``no parent folder'' and not ``no matching parent note''. The code has no
  branch of its own for this case: \<^verbatim>\<open>parentNote\<close> stays \<^verbatim>\<open>null\<close> and the test
  \<^verbatim>\<open>if (!parentNote)\<close> reports that no matching parent note was found, for the folder
  \<^verbatim>\<open>undefined\<close>. Here \<^verbatim>\<open>Projects/Projects.md\<close> is the folder note of a folder with
  no parent.
\<close>

theorem folder_note_without_grandparent_counterexample:
  "parent projectsNote = Some exProjects \<and>
   basename projectsNote = folder_name exProjects \<and>
   folder_parent exProjects = None \<and>
   resolveParentNote exPlugin projectsNote \<noteq> Inl NoParentFolder \<and>
   resolveParentNote exPlugin projectsNote = Inl (NoMatchingParentNote None) \<and>
   trace (updateParentLink exPlugin projectsNote h0) =
     [ConsoleLog
        ''Projects/Projects.md - skipped (no matching parent note for folder undefined)'']"
  by (simp add: ex_defs code_defs)

text \<open>
  C9, amended: for every folder note whose containing folder has no parent folder, the
  resolution finds no parent and returns through the branch ``no matching parent note'',
  with an undefined target folder (the message printed when the document is in scope says
  so); no write is made and no metadata changes.
\<close>

theorem folder_note_without_grandparent:
  assumes "parent d = Some pf"
    and "basename d = folder_name pf"
    and "folder_parent pf = None"
  shows "resolveParentNote this d = Inl (NoMatchingParentNote None) \<and>
         resolvedParent this d = None \<and>
         frontmatter (updateParentLink this d h) = frontmatter h \<and>
         writes (trace (updateParentLink this d h)) = writes (trace h) \<and>
         (inScope this d \<longrightarrow>
            updateParentLink this d h =
              detailedLog this
                (path d @ '' - skipped (no matching parent note for folder undefined)'') h)"
proof -
  have skip: "resolveParentNote this d = Inl (NoMatchingParentNote None)"
    using assms by (simp add: resolveParentNote_def)
  then show ?thesis
    using updateParentLink_skip [OF skip, of h] updateParentLink_skip_in_scope [OF _ skip, of h]
    by (simp add: resolvedParent_def)
qed

theorem folder_note_without_grandparent_witness:
  "parent projectsNote = Some exProjects \<and>
   basename projectsNote = folder_name exProjects \<and>
   folder_parent exProjects = None \<and>
   inScope exPlugin projectsNote \<and>
   resolveParentNote exPlugin projectsNote = Inl (NoMatchingParentNote None) \<and>
   frontmatter (updateParentLink exPlugin projectsNote h0) = frontmatter h0 \<and>
   writes (trace (updateParentLink exPlugin projectsNote h0)) = []"
proof -
  have a: "parent projectsNote = Some exProjects"
    "basename projectsNote = folder_name exProjects"
    "folder_parent exProjects = None"
    by (simp_all add: ex_defs)
  have b: "inScope exPlugin projectsNote" "writes (trace h0) = []"
    by (simp_all add: ex_defs inScope_def)
  show ?thesis
    using a b folder_note_without_grandparent [OF a, of exPlugin h0] by simp
qed

section \<open>C6: the value of the link\<close>

text \<open>
  The link is made from \<^verbatim>\<open>parentNote.name.replace('.md', '')\<close>, not from
  \<^verbatim>\<open>parentNote.basename\<close>. The two agree when the name is the base name followed by
  \<^verbatim>\<open>.md\<close> and \<^verbatim>\<open>.md\<close> does not occur earlier in the name.
\<close>

lemma replace_first_occurrence:
  "\<forall>i<length b. \<not> startsWith (drop i (b @ s)) pat \<Longrightarrow> startsWith s pat \<Longrightarrow>
     replace (b @ s) pat rep = b @ rep @ drop (length pat) s"
proof (induction b)
  case Nil
  then show ?case
    by (cases s) (auto simp: startsWith_def)
next
  case (Cons x b)
  from Cons.prems(1) have head: "\<not> startsWith ((x # b) @ s) pat"
    by (metis drop0 length_greater_0_conv list.distinct(1))
  have "\<forall>i<length b. \<not> startsWith (drop i (b @ s)) pat"
  proof (intro allI impI)
    fix i
    assume "i < length b"
    then have "\<not> startsWith (drop (Suc i) ((x # b) @ s)) pat"
      using Cons.prems(1) by (metis Suc_less_eq length_Cons)
    then show "\<not> startsWith (drop i (b @ s)) pat"
      by simp
  qed
  then have "replace (b @ s) pat rep = b @ rep @ drop (length pat) s"
    using Cons.IH Cons.prems(2) by blast
  then show ?case
    using head by simp
qed

lemma newParent_plain_name:
  assumes "name n = basename n @ ''.md''"
    and "\<forall>i<length (basename n). \<not> startsWith (drop i (name n)) ''.md''"
  shows "newParent n = ''[['' @ basename n @ '']]''"
proof -
  have "replace (basename n @ ''.md'') ''.md'' [] = basename n @ [] @ drop (length ''.md'') ''.md''"
    using assms by (intro replace_first_occurrence) (simp_all add: startsWith_def)
  then show ?thesis
    using assms(1) by (simp add: newParent_def)
qed

text \<open>
  C6 (wikilink value) says that the value written is \<^verbatim>\<open>[[\<close>, the base name of the target
  note, \<^verbatim>\<open>]]\<close>. For the folder \<^verbatim>\<open>docs.mdx\<close> with the folder note
  \<^verbatim>\<open>docs.mdx/docs.mdx.md\<close> (base name \<^verbatim>\<open>docs.mdx\<close>), the note
  \<^verbatim>\<open>docs.mdx/Intro.md\<close> gets the parent \<^verbatim>\<open>[[docsx.md]]\<close>: the first \<^verbatim>\<open>.md\<close>
  of the name is removed, not the extension.
\<close>

theorem link_of_dotted_name:
  "resolvedParent exDocsPlugin introNote = Some docsNote \<and>
   name docsNote = basename docsNote @ ''.md'' \<and>
   basename docsNote = ''docs.mdx'' \<and>
   frontmatter (updateParentLink exDocsPlugin introNote h0) (oid introNote) ''parent'' =
     Some (YString ''[[docsx.md]]'')"
  by (simp add: ex_defs code_defs obs_defs)

section \<open>C10: what a call may change\<close>

text \<open>
  C10 (frame property): a call of \<^verbatim>\<open>updateParentLink\<close> on \<open>d\<close> never changes a key
  other than \<^verbatim>\<open>parent\<close>, nor the metadata of a document other than \<open>d\<close>. On every
  skip (out of the allowed paths; no containing folder, case mismatch or no matching
  parent note, which are the early returns of the resolution; value already correct) it
  changes nothing and does not invoke the writer; when the writer raises at this call it
  changes nothing; otherwise it invokes the writer once, on \<open>d\<close>, and the only change is that
  the \<^verbatim>\<open>parent\<close> key of \<open>d\<close> is set to the new link.
\<close>

theorem frame_property:
  "(\<forall>i k. i \<noteq> oid d \<or> k \<noteq> ''parent'' \<longrightarrow>
      frontmatter (updateParentLink this d h) i k = frontmatter h i k) \<and>
   (\<not> inScope this d \<or> (\<exists>s. resolveParentNote this d = Inl s) \<or>
    (\<exists>n. resolveParentNote this d = Inr n \<and>
         frontmatter h (oid d) ''parent'' = Some (YString (newParent n))) \<longrightarrow>
      frontmatter (updateParentLink this d h) = frontmatter h \<and>
      writes (trace (updateParentLink this d h)) = writes (trace h)) \<and>
   (writeRaises this (oid d) (attemptsOn h (oid d)) \<longrightarrow>
      frontmatter (updateParentLink this d h) = frontmatter h) \<and>
   (\<forall>n. inScope this d \<and> resolveParentNote this d = Inr n \<and>
        frontmatter h (oid d) ''parent'' \<noteq> Some (YString (newParent n)) \<and>
        \<not> writeRaises this (oid d) (attemptsOn h (oid d)) \<longrightarrow>
      frontmatter (updateParentLink this d h) =
        (frontmatter h)(oid d := (frontmatter h (oid d))(''parent'' \<mapsto> YString (newParent n))) \<and>
      writes (trace (updateParentLink this d h)) = writes (trace h) @ [oid d])"
proof (intro conjI allI impI)
  fix i k
  assume "i \<noteq> oid d \<or> k \<noteq> ''parent''"
  then show "frontmatter (updateParentLink this d h) i k = frontmatter h i k"
    by (auto simp: frontmatter_updateParentLink split: option.splits)
next
  assume "\<not> inScope this d \<or> (\<exists>s. resolveParentNote this d = Inl s) \<or>
    (\<exists>n. resolveParentNote this d = Inr n \<and>
         frontmatter h (oid d) ''parent'' = Some (YString (newParent n)))"
  then have "desired this d = None \<or>
    (\<exists>v. desired this d = Some v \<and> frontmatter h (oid d) ''parent'' = Some (YString v))"
    by (auto simp: desired_def resolvedParent_def)
  then show "frontmatter (updateParentLink this d h) = frontmatter h"
    "writes (trace (updateParentLink this d h)) = writes (trace h)"
    by (auto simp: frontmatter_updateParentLink writes_updateParentLink)
next
  assume "writeRaises this (oid d) (attemptsOn h (oid d))"
  then show "frontmatter (updateParentLink this d h) = frontmatter h"
    by (simp add: frontmatter_updateParentLink split: option.splits)
next
  fix n
  assume a: "inScope this d \<and> resolveParentNote this d = Inr n \<and>
        frontmatter h (oid d) ''parent'' \<noteq> Some (YString (newParent n)) \<and>
        \<not> writeRaises this (oid d) (attemptsOn h (oid d))"
  then have "desired this d = Some (newParent n)"
    by (simp add: desired_def resolvedParent_def)
  then show "frontmatter (updateParentLink this d h) =
        (frontmatter h)(oid d := (frontmatter h (oid d))(''parent'' \<mapsto> YString (newParent n)))"
    "writes (trace (updateParentLink this d h)) = writes (trace h) @ [oid d]"
    using a by (simp_all add: frontmatter_updateParentLink writes_updateParentLink)
qed

theorem frame_property_witness:
  "inScope exPlugin taskNote \<and> resolveParentNote exPlugin taskNote = Inr projectsNote \<and>
   frontmatter h0 (oid taskNote) ''parent'' \<noteq> Some (YString (newParent projectsNote)) \<and>
   \<not> writeRaises exPlugin (oid taskNote) (attemptsOn h0 (oid taskNote)) \<and>
   frontmatter (updateParentLink exPlugin taskNote h0) =
     (frontmatter h0)(1 := [''parent'' \<mapsto> YString ''[[Projects]]'']) \<and>
   writes (trace (updateParentLink exPlugin taskNote h0)) = [1] \<and>
   writeRaises exFailing (oid taskNote) (attemptsOn h0 (oid taskNote)) \<and>
   frontmatter (updateParentLink exFailing taskNote h0) = frontmatter h0 \<and>
   resolveParentNote exPlugin rootNote = Inl NoParentFolder \<and>
   frontmatter (updateParentLink exPlugin rootNote h0) = frontmatter h0 \<and>
   writes (trace (updateParentLink exPlugin rootNote h0)) = []"
proof -
  have a: "inScope exPlugin taskNote" "resolveParentNote exPlugin taskNote = Inr projectsNote"
    "frontmatter h0 (oid taskNote) ''parent'' \<noteq> Some (YString (newParent projectsNote))"
    "\<not> writeRaises exPlugin (oid taskNote) (attemptsOn h0 (oid taskNote))"
    by (simp_all add: ex_defs code_defs inScope_def)
  have b: "newParent projectsNote = ''[[Projects]]''" "oid taskNote = 1"
    "frontmatter h0 1 = Map.empty" "writes (trace h0) = []"
    by (simp_all add: ex_defs code_defs)
  have c: "writeRaises exFailing (oid taskNote) (attemptsOn h0 (oid taskNote))"
    "resolveParentNote exPlugin rootNote = Inl NoParentFolder"
    by (simp_all add: ex_defs code_defs)
  show ?thesis
    using a b c frame_property [of taskNote exPlugin h0]
      frame_property [of taskNote exFailing h0] frame_property [of rootNote exPlugin h0]
    by simp
qed

section \<open>Facts about cascades\<close>

lemma withoutLogs_append [simp]: "withoutLogs (xs @ ys) = withoutLogs xs @ withoutLogs ys"
  by (induction xs rule: withoutLogs.induct) auto

lemma writes_withoutLogs [simp]: "writes (withoutLogs es) = writes es"
  by (induction es rule: withoutLogs.induct) auto

lemma sameEffect_writes: "sameEffect h h' \<Longrightarrow> writes (trace h) = writes (trace h')"
  by (metis sameEffect_def writes_withoutLogs)

lemma sameEffect_detailedLog [simp]: "sameEffect (detailedLog this msg h) h' = sameEffect h h'"
  by (simp add: sameEffect_def detailedLog_def)

lemma sameEffect_refl [simp]: "sameEffect h h"
  by (simp add: sameEffect_def)

text \<open>What a call appends to the trace depends on the headers only.\<close>

lemma trace_updateParentLink_attempts:
  "frontmatter h = frontmatter h' \<Longrightarrow> attemptsOn h (oid d) = attemptsOn h' (oid d) \<Longrightarrow>
     \<exists>evs. trace (updateParentLink this d h) = trace h @ evs \<and>
           trace (updateParentLink this d h') = trace h' @ evs"
  by (auto simp: updateParentLink_def tryBody_def processFrontMatter_def detailedLog_def
      Let_def split: sum.splits)

lemma trace_updateParentLink:
  assumes "frontmatter h = frontmatter h'" and "writes (trace h) = writes (trace h')"
  shows "\<exists>evs. trace (updateParentLink this d h) = trace h @ evs \<and>
           trace (updateParentLink this d h') = trace h' @ evs"
proof -
  have "attemptsOn h (oid d) = attemptsOn h' (oid d)"
    by (simp add: attemptsOn_def assms(2))
  with assms(1) show ?thesis
    by (rule trace_updateParentLink_attempts)
qed

lemma sameEffect_updateParentLink:
  assumes "sameEffect h h'"
  shows "sameEffect (updateParentLink this d h) (updateParentLink this d h')"
proof -
  from assms have fm: "frontmatter h = frontmatter h'"
    by (simp add: sameEffect_def)
  from assms have ws: "writes (trace h) = writes (trace h')"
    by (rule sameEffect_writes)
  from fm ws obtain evs where evs: "trace (updateParentLink this d h) = trace h @ evs"
    "trace (updateParentLink this d h') = trace h' @ evs"
    using trace_updateParentLink by blast
  have "attemptsOn h (oid d) = attemptsOn h' (oid d)"
    by (simp add: attemptsOn_def ws)
  then have "frontmatter (updateParentLink this d h) = frontmatter (updateParentLink this d h')"
    by (simp only: frontmatter_updateParentLink fm)
  moreover have "withoutLogs (trace (updateParentLink this d h)) =
      withoutLogs (trace (updateParentLink this d h'))"
    using assms by (simp add: evs sameEffect_def)
  ultimately show ?thesis
    by (simp only: sameEffect_def)
qed

lemma sameEffect_updateEach:
  "sameEffect h h' \<Longrightarrow> sameEffect (updateEach this cs h) (updateEach this cs h')"
  by (induction cs arbitrary: h h') (simp_all add: sameEffect_updateParentLink)

lemma updateEach_append:
  "updateEach this (xs @ ys) h = updateEach this ys (updateEach this xs h)"
  by (induction xs arbitrary: h) simp_all

lemma cascade_then_note:
  assumes "sameEffect h1 h"
  shows "sameEffect
     (if \<not> isRoot F then
        (case folderNote this F of
           Some n \<Rightarrow> updateParentLink this n (detailedLog this (msg n) (updateEach this fs h1))
         | None \<Rightarrow> updateEach this fs h1)
      else updateEach this fs h1)
     (updateEach this
        (fs @ (if \<not> isRoot F then
                 (case folderNote this F of Some n \<Rightarrow> [n] | None \<Rightarrow> [])
               else []))
        h)"
proof -
  have loop: "sameEffect (updateEach this fs h1) (updateEach this fs h)"
    using assms by (rule sameEffect_updateEach)
  have "sameEffect
      (updateParentLink this n (detailedLog this (msg n) (updateEach this fs h1)))
      (updateParentLink this n (updateEach this fs h))" for n
    by (rule sameEffect_updateParentLink) (simp add: loop)
  then show ?thesis
    using loop by (simp add: updateEach_append split: option.splits)
qed

lemma handleFolderRename_cascadeCalls:
  "sameEffect (handleFolderRename this F h) (updateEach this (cascadeCalls this F) h)"
  unfolding handleFolderRename_def cascadeCalls_def Let_def
  by (rule cascade_then_note) simp

lemma handleFolderRename_quiet:
  "\<not> detailedLogs (settings this) \<Longrightarrow>
     handleFolderRename this F h = updateEach this (cascadeCalls this F) h"
  by (simp add: handleFolderRename_def cascadeCalls_def updateEach_append detailedLog_def
      split: option.splits)

lemma count_list_distinct: "distinct xs \<Longrightarrow> x \<in> set xs \<Longrightarrow> count_list xs x = 1"
  by (induction xs) auto

lemma folderNote_in_files: "folderNote this F = Some n \<Longrightarrow> n \<in> set (getMarkdownFiles this)"
  by (auto simp: folderNote_def find_Some_iff)

lemma filesInFolder_subset: "set (filesInFolder this F) \<subseteq> set (getMarkdownFiles this)"
  by (simp add: filesInFolder_def)

lemma set_cascadeCalls:
  "set (cascadeCalls this F) =
     set (filesInFolder this F) \<union> (if isRoot F then {} else set_option (folderNote this F))"
  by (cases "isRoot F"; cases "folderNote this F"; simp add: cascadeCalls_def)

lemma cascadeCalls_subset: "set (cascadeCalls this F) \<subseteq> set (getMarkdownFiles this)"
  using filesInFolder_subset [of this F] folderNote_in_files [of this F]
  by (auto simp: set_cascadeCalls split: if_splits)

subsection \<open>Settled documents\<close>

lemma settled_noop:
  "settled this d h \<Longrightarrow>
     frontmatter (updateParentLink this d h) = frontmatter h \<and>
     writes (trace (updateParentLink this d h)) = writes (trace h)"
  by (auto simp: settled_def frontmatter_updateParentLink writes_updateParentLink
      split: option.splits)

lemma settled_after:
  "\<not> writeRaises this (oid d) (attemptsOn h (oid d)) \<Longrightarrow>
     settled this d (updateParentLink this d h)"
  by (auto simp: settled_def frontmatter_updateParentLink split: option.splits)

lemma frontmatter_other:
  "oid f \<noteq> i \<Longrightarrow> frontmatter (updateParentLink this f h) i = frontmatter h i"
  by (auto simp: frontmatter_updateParentLink split: option.splits)

lemma settled_other:
  "oid f \<noteq> oid d \<Longrightarrow> settled this d (updateParentLink this f h) = settled this d h"
  by (simp add: settled_def frontmatter_other split: option.splits)

lemma count_writes_other:
  "oid f \<noteq> i \<Longrightarrow>
     count_list (writes (trace (updateParentLink this f h))) i = count_list (writes (trace h)) i"
  by (auto simp: writes_updateParentLink split: option.splits)

lemma count_writes_step:
  "count_list (writes (trace (updateParentLink this f h))) i \<le> count_list (writes (trace h)) i + 1"
  by (auto simp: writes_updateParentLink split: option.splits)

lemma settled_updateEach:
  "\<forall>f\<in>set cs. oid f = oid d \<longrightarrow> f = d \<Longrightarrow> settled this d h \<Longrightarrow>
     settled this d (updateEach this cs h) \<and>
     count_list (writes (trace (updateEach this cs h))) (oid d) =
       count_list (writes (trace h)) (oid d)"
proof (induction cs arbitrary: h)
  case Nil
  then show ?case by simp
next
  case (Cons c cs)
  show ?case
  proof (cases "oid c = oid d")
    case True
    then have "c = d"
      using Cons.prems(1) by simp
    then have "settled this d (updateParentLink this c h)"
      "count_list (writes (trace (updateParentLink this c h))) (oid d) =
         count_list (writes (trace h)) (oid d)"
      using settled_noop [OF Cons.prems(2)] Cons.prems(2)
      by (simp_all add: settled_def split: option.splits)
    then show ?thesis
      using Cons.IH [of "updateParentLink this c h"] Cons.prems(1) by simp
  next
    case False
    then have "settled this d (updateParentLink this c h)"
      "count_list (writes (trace (updateParentLink this c h))) (oid d) =
         count_list (writes (trace h)) (oid d)"
      using Cons.prems(2) by (simp_all add: settled_other count_writes_other)
    then show ?thesis
      using Cons.IH [of "updateParentLink this c h"] Cons.prems(1) by simp
  qed
qed

lemma writes_once_updateEach:
  "\<forall>f\<in>set cs. oid f = oid d \<longrightarrow> f = d \<Longrightarrow> \<forall>n. \<not> writeRaises this (oid d) n \<Longrightarrow>
     count_list (writes (trace (updateEach this cs h))) (oid d) \<le>
       count_list (writes (trace h)) (oid d) + 1"
proof (induction cs arbitrary: h)
  case Nil
  then show ?case by simp
next
  case (Cons c cs)
  show ?case
  proof (cases "oid c = oid d")
    case True
    then have "c = d"
      using Cons.prems(1) by simp
    then have "settled this d (updateParentLink this c h)"
      using Cons.prems(2) by (simp add: settled_after)
    then have "count_list (writes (trace (updateEach this cs (updateParentLink this c h)))) (oid d)
        = count_list (writes (trace (updateParentLink this c h))) (oid d)"
      using settled_updateEach [of cs d this "updateParentLink this c h"] Cons.prems(1) by simp
    then show ?thesis
      using count_writes_step [of this c h "oid d"] by simp
  next
    case False
    then have "count_list (writes (trace (updateParentLink this c h))) (oid d) =
         count_list (writes (trace h)) (oid d)"
      by (simp add: count_writes_other)
    then show ?thesis
      using Cons.IH [of "updateParentLink this c h"] Cons.prems by simp
  qed
qed

lemma resolved_updateEach:
  "d \<in> set cs \<Longrightarrow> \<forall>f\<in>set cs. oid f = oid d \<longrightarrow> f = d \<Longrightarrow>
   \<forall>n. \<not> writeRaises this (oid d) n \<Longrightarrow>
     settled this d (updateEach this cs h)"
proof (induction cs arbitrary: h)
  case Nil
  then show ?case by simp
next
  case (Cons c cs)
  show ?case
  proof (cases "c = d")
    case True
    then have "settled this d (updateParentLink this c h)"
      using Cons.prems(3) by (simp add: settled_after)
    then show ?thesis
      using settled_updateEach [of cs d this "updateParentLink this c h"] Cons.prems(2) by simp
  next
    case False
    then have "d \<in> set cs"
      using Cons.prems(1) by simp
    then show ?thesis
      using Cons.IH [of "updateParentLink this c h"] Cons.prems by simp
  qed
qed


lemma count_writes_absent:
  "\<forall>f\<in>set cs. oid f \<noteq> i \<Longrightarrow>
     count_list (writes (trace (updateEach this cs h))) i = count_list (writes (trace h)) i"
  by (induction cs arbitrary: h) (simp_all add: count_writes_other)

lemma writes_once_cascade:
  assumes "inj_on oid (set (getMarkdownFiles this))" and "\<forall>n. \<not> writeRaises this i n"
  shows "count_list (writes (trace (handleFolderRename this F h))) i \<le>
           count_list (writes (trace h)) i + 1"
proof -
  let ?cs = "cascadeCalls this F"
  have "count_list (writes (trace (updateEach this ?cs h))) i \<le> count_list (writes (trace h)) i + 1"
  proof (cases "\<exists>d\<in>set ?cs. oid d = i")
    case True
    then obtain d where d: "d \<in> set ?cs" "oid d = i"
      by blast
    have "\<forall>f\<in>set ?cs. oid f = oid d \<longrightarrow> f = d"
      using assms(1) d(1) cascadeCalls_subset [of this F] by (meson inj_onD subsetD)
    then show ?thesis
      using writes_once_updateEach [of ?cs d this h] assms(2) d(2) by simp
  next
    case False
    then show ?thesis
      using count_writes_absent [of ?cs i this h] by simp
  qed
  then show ?thesis
    using sameEffect_writes [OF handleFolderRename_cascadeCalls, of this F h] by simp
qed

lemma count_cascadeCalls:
  assumes "distinct (getMarkdownFiles this)" and "d \<in> set (filesInFolder this F)"
  shows "count_list (filesInFolder this F) d = 1"
    and "count_list (cascadeCalls this F) d =
           (if \<not> isRoot F \<and> folderNote this F = Some d then 2 else 1)"
proof -
  have "distinct (filesInFolder this F)"
    using assms(1) by (simp add: filesInFolder_def)
  then show one: "count_list (filesInFolder this F) d = 1"
    using assms(2) by (rule count_list_distinct)
  show "count_list (cascadeCalls this F) d =
           (if \<not> isRoot F \<and> folderNote this F = Some d then 2 else 1)"
    using one by (cases "isRoot F"; cases "folderNote this F"; simp add: cascadeCalls_def)
qed

lemma filesInFolder_filter:
  "filesInFolder this F =
     filter (\<lambda>f. isRoot F \<or> startsWith (path f) (folder_path F @ ''/'')) (getMarkdownFiles this)"
  unfolding filesInFolder_def by (rule filter_cong) auto

lemma folderNote_firstInOrder:
  "firstInOrder (getMarkdownFiles this) (\<lambda>f. basename f = folder_name F \<and> containedIn f F)
     (folderNote this F)"
proof -
  have "(\<lambda>f. basename f = folder_name F \<and>
             map_option folder_path (parent f) = Some (folder_path F)) =
        (\<lambda>f. basename f = folder_name F \<and> containedIn f F)"
    by (auto simp: containedIn_def fun_eq_iff split: option.splits)
  then show ?thesis
    using firstInOrder_find [of "getMarkdownFiles this"
        "\<lambda>f. basename f = folder_name F \<and> map_option folder_path (parent f) = Some (folder_path F)"]
    by (simp add: folderNote_def)
qed

section \<open>C5: the calls of a cascade\<close>

text \<open>
  C5 says that in a cascade the resolution is applied to each enumerated document exactly
  once. The folder note of the folder lies in the folder, so it is enumerated, and the
  last step of \<^verbatim>\<open>handleFolderRename\<close> calls \<^verbatim>\<open>updateParentLink\<close> on it once more.
  Here \<^verbatim>\<open>Projects/Sub/Sub.md\<close> is called twice in the cascade of
  \<^verbatim>\<open>Projects/Sub\<close>; the second call finds the value already written.
\<close>

theorem folder_note_resolved_twice_counterexample:
  "subNote \<in> set (filesInFolder exPlugin exSub) \<and>
   folderNote exPlugin exSub = Some subNote \<and>
   count_list (cascadeCalls exPlugin exSub) subNote = 2 \<and>
   trace (handleFolderRename exPlugin exSub h0) =
     [ConsoleLog ''Folder renamed/modified: Projects/Sub, updating all files inside'',
      ProcessFrontMatter 2,
      ConsoleLog ''Projects/Sub/Sub.md - frontmatter updated with parent: [[Projects]]'',
      ConsoleLog ''Updating folder note: Projects/Sub/Sub.md'',
      ConsoleLog ''Projects/Sub/Sub.md - skipped (parent already set correctly)'']"
  by (simp add: ex_defs code_defs)

text \<open>
  C5, amended: for every folder \<open>F\<close>, \<^verbatim>\<open>handleFolderRename\<close> enumerates the
  documents whose path starts with the path of \<open>F\<close> and \<^verbatim>\<open>/\<close> (all documents when
  \<open>F\<close> is the root), in enumeration order; its folder note is the first document whose
  base name is the name of \<open>F\<close> and whose containing folder is \<open>F\<close>; it calls
  \<^verbatim>\<open>updateParentLink\<close> on each enumerated document in order and then, unless \<open>F\<close> is
  the root, on the folder note if there is one (its effect is that of this sequence of
  calls, and equal to it when the detailed logs are off). With distinct documents, each
  enumerated document is called once in the loop, and once in the cascade unless it is
  the folder note of a folder other than the root, which is called twice. With distinct
  file identities, the writer is invoked at most once in a cascade on each file for which
  it never raises.
\<close>

theorem cascade_calls:
  "filesInFolder this F =
     filter (\<lambda>f. isRoot F \<or> startsWith (path f) (folder_path F @ ''/''))
       (getMarkdownFiles this) \<and>
   firstInOrder (getMarkdownFiles this) (\<lambda>f. basename f = folder_name F \<and> containedIn f F)
     (folderNote this F) \<and>
   cascadeCalls this F =
     filesInFolder this F @
     (if isRoot F then [] else (case folderNote this F of None \<Rightarrow> [] | Some n \<Rightarrow> [n])) \<and>
   sameEffect (handleFolderRename this F h) (updateEach this (cascadeCalls this F) h) \<and>
   (\<not> detailedLogs (settings this) \<longrightarrow>
      handleFolderRename this F h = updateEach this (cascadeCalls this F) h) \<and>
   (distinct (getMarkdownFiles this) \<longrightarrow>
      (\<forall>d\<in>set (filesInFolder this F).
         count_list (filesInFolder this F) d = 1 \<and>
         count_list (cascadeCalls this F) d =
           (if \<not> isRoot F \<and> folderNote this F = Some d then 2 else 1))) \<and>
   (inj_on oid (set (getMarkdownFiles this)) \<longrightarrow>
      (\<forall>i. (\<forall>n. \<not> writeRaises this i n) \<longrightarrow>
         count_list (writes (trace (handleFolderRename this F h))) i \<le>
           count_list (writes (trace h)) i + 1))"
proof -
  have calls: "cascadeCalls this F =
     filesInFolder this F @
     (if isRoot F then [] else (case folderNote this F of None \<Rightarrow> [] | Some n \<Rightarrow> [n]))"
    by (cases "isRoot F") (simp_all add: cascadeCalls_def)
  have quiet: "\<not> detailedLogs (settings this) \<longrightarrow>
      handleFolderRename this F h = updateEach this (cascadeCalls this F) h"
    using handleFolderRename_quiet by blast
  have once: "distinct (getMarkdownFiles this) \<longrightarrow>
      (\<forall>d\<in>set (filesInFolder this F).
         count_list (filesInFolder this F) d = 1 \<and>
         count_list (cascadeCalls this F) d =
           (if \<not> isRoot F \<and> folderNote this F = Some d then 2 else 1))"
    using count_cascadeCalls [of this _ F] by blast
  have writer: "inj_on oid (set (getMarkdownFiles this)) \<longrightarrow>
      (\<forall>i. (\<forall>n. \<not> writeRaises this i n) \<longrightarrow>
         count_list (writes (trace (handleFolderRename this F h))) i \<le>
           count_list (writes (trace h)) i + 1)"
    using writes_once_cascade [of this _ F h] by blast
  show ?thesis
    using filesInFolder_filter [of this F] folderNote_firstInOrder [of this F] calls
      handleFolderRename_cascadeCalls [of this F h] quiet once writer
    by (intro conjI) assumption+
qed

theorem cascade_calls_witness:
  "distinct (getMarkdownFiles exPlugin) \<and>
   inj_on oid (set (getMarkdownFiles exPlugin)) \<and>
   filesInFolder exPlugin exProjects = [projectsNote, taskNote, subNote, shoutNote] \<and>
   folderNote exPlugin exProjects = Some projectsNote \<and>
   cascadeCalls exPlugin exProjects =
     [projectsNote, taskNote, subNote, shoutNote, projectsNote] \<and>
   count_list (cascadeCalls exPlugin exProjects) taskNote = 1 \<and>
   count_list (cascadeCalls exPlugin exProjects) projectsNote = 2 \<and>
   sameEffect (handleFolderRename exPlugin exProjects h0)
     (updateEach exPlugin [projectsNote, taskNote, subNote, shoutNote, projectsNote] h0) \<and>
   count_list (writes (trace (handleFolderRename exPlugin exProjects h0))) 1 \<le> 1"
proof -
  note all = cascade_calls [of exPlugin exProjects h0]
  have a: "distinct (getMarkdownFiles exPlugin)"
    by (simp add: ex_defs)
  have b: "inj_on oid (set (getMarkdownFiles exPlugin))"
    by (simp add: ex_defs inj_on_def)
  have c: "filesInFolder exPlugin exProjects = [projectsNote, taskNote, subNote, shoutNote]"
    by (simp add: ex_defs filesInFolder_def startsWith_def)
  have d: "folderNote exPlugin exProjects = Some projectsNote"
    by (simp add: ex_defs folderNote_def)
  have e: "\<not> isRoot exProjects" "\<forall>n. \<not> writeRaises exPlugin 1 n" "writes (trace h0) = []"
    "projectsNote \<noteq> taskNote"
    by (simp_all add: ex_defs)
  have calls: "cascadeCalls exPlugin exProjects =
     [projectsNote, taskNote, subNote, shoutNote, projectsNote]"
    using all c d e(1) by simp
  have "\<forall>d\<in>set (filesInFolder exPlugin exProjects).
         count_list (cascadeCalls exPlugin exProjects) d =
           (if \<not> isRoot exProjects \<and> folderNote exPlugin exProjects = Some d then 2 else 1)"
    using all a by blast
  then have counts: "count_list (cascadeCalls exPlugin exProjects) taskNote = 1"
    "count_list (cascadeCalls exPlugin exProjects) projectsNote = 2"
    using c d e by simp_all
  have same: "sameEffect (handleFolderRename exPlugin exProjects h0)
     (updateEach exPlugin (cascadeCalls exPlugin exProjects) h0)"
    using all by blast
  have "count_list (writes (trace (handleFolderRename exPlugin exProjects h0))) 1 \<le>
     count_list (writes (trace h0)) 1 + 1"
    using all b e(2) by blast
  then show ?thesis
    using a b c d e(3) calls counts same by simp
qed

section \<open>Facts about a raising writer\<close>

lemma raising_unchanged:
  "\<forall>n. writeRaises this i n \<Longrightarrow> frontmatter (updateParentLink this f h) i = frontmatter h i"
  by (auto simp: frontmatter_updateParentLink split: option.splits)

lemma raising_unchanged_updateEach:
  "\<forall>n. writeRaises this i n \<Longrightarrow> frontmatter (updateEach this cs h) i = frontmatter h i"
  by (induction cs arbitrary: h) (simp_all add: raising_unchanged)

lemma desired_neverRaisingFor [simp]: "desired (neverRaisingFor j this) f = desired this f"
  by (simp add: neverRaisingFor_def obs_defs resolveParentNote_def isAllowed_def
      cong: option.case_cong if_cong)

lemma cascadeCalls_neverRaisingFor [simp]:
  "cascadeCalls (neverRaisingFor j this) F = cascadeCalls this F"
  by (simp add: neverRaisingFor_def cascadeCalls_def filesInFolder_def folderNote_def
      cong: option.case_cong if_cong)

text \<open>
  Two runs that differ only in whether the writer raises for the file \<open>j\<close> stay in
  agreement off \<open>j\<close>, call after call.
\<close>

lemma attemptsOn_updateParentLink:
  "attemptsOn (updateParentLink this f h) i =
     attemptsOn h i +
     (case desired this f of
        None \<Rightarrow> 0
      | Some v \<Rightarrow>
          if frontmatter h (oid f) ''parent'' \<noteq> Some (YString v) \<and> oid f = i then 1 else 0)"
  by (auto simp: attemptsOn_def writes_updateParentLink split: option.splits)

lemma isolation_step:
  assumes "agreeOff j h h'"
  shows "agreeOff j (updateParentLink this f h) (updateParentLink (neverRaisingFor j this) f h')"
proof (cases "oid f = j")
  case True
  then show ?thesis
    using assms
    by (auto simp: agreeOff_def frontmatter_other attemptsOn_updateParentLink
        split: option.splits)
next
  case False
  then have same: "writeRaises (neverRaisingFor j this) (oid f) = writeRaises this (oid f)"
    "frontmatter h (oid f) = frontmatter h' (oid f)"
    "attemptsOn h (oid f) = attemptsOn h' (oid f)"
    using assms by (simp_all add: neverRaisingFor_def agreeOff_def)
  show ?thesis
    unfolding agreeOff_def
  proof (intro allI impI conjI)
    fix i
    assume "i \<noteq> j"
    then have i: "frontmatter h i = frontmatter h' i" "attemptsOn h i = attemptsOn h' i"
      using assms by (simp_all add: agreeOff_def)
    show "frontmatter (updateParentLink this f h) i =
        frontmatter (updateParentLink (neverRaisingFor j this) f h') i"
      using i(1) same by (auto simp: frontmatter_updateParentLink split: option.splits)
    show "attemptsOn (updateParentLink this f h) i =
        attemptsOn (updateParentLink (neverRaisingFor j this) f h') i"
      using i(2) same by (simp add: attemptsOn_updateParentLink split: option.splits)
  qed
qed

lemma isolation_updateEach:
  "agreeOff j h h' \<Longrightarrow>
     agreeOff j (updateEach this cs h) (updateEach (neverRaisingFor j this) cs h')"
proof (induction cs arbitrary: h h')
  case Nil
  then show ?case by simp
next
  case (Cons c cs)
  from isolation_step [OF Cons.prems, of this c]
  show ?case
    using Cons.IH [of "updateParentLink this c h" "updateParentLink (neverRaisingFor j this) c h'"]
    by simp
qed

lemma frontmatter_cascade:
  "frontmatter (handleFolderRename this F h) = frontmatter (updateEach this (cascadeCalls this F) h)"
  using handleFolderRename_cascadeCalls [of this F h] by (simp add: sameEffect_def)

lemma Notice_withoutLogs [simp]: "Notice m \<in> set (withoutLogs es) \<longleftrightarrow> Notice m \<in> set es"
  by (induction es rule: withoutLogs.induct) auto

lemma trace_grows: "set (trace h) \<subseteq> set (trace (updateParentLink this f h))"
  using trace_updateParentLink [of h h this f] by auto

lemma trace_grows_updateEach: "set (trace h) \<subseteq> set (trace (updateEach this cs h))"
proof (induction cs arbitrary: h)
  case Nil
  then show ?case by simp
next
  case (Cons c cs)
  show ?case
    using trace_grows [of h this c] Cons.IH [of "updateParentLink this c h"] by auto
qed

text \<open>The call whose write raises: what it returns.\<close>

lemma updateParentLink_raising:
  assumes "writeRaises this (oid d) (attemptsOn h (oid d))" and "desired this d = Some v"
    and "frontmatter h (oid d) ''parent'' \<noteq> Some (YString v)"
  shows "fst (tryBody this d h) = Some WriteError"
    and "updateParentLink this d h =
      h\<lparr>trace := trace h @
        [ProcessFrontMatter (oid d),
         ConsoleError (path d @ '' - error updating parent link:'') WriteError,
         Notice (''Error updating parent link for '' @ path d)]\<rparr>"
  using assms
  by (auto simp: updateParentLink_def tryBody_def obs_defs processFrontMatter_def Let_def
      split: sum.splits if_splits)

lemma notice_updateEach:
  "d \<in> set cs \<Longrightarrow> \<forall>n. writeRaises this (oid d) n \<Longrightarrow> desired this d = Some v \<Longrightarrow>
   frontmatter h (oid d) ''parent'' \<noteq> Some (YString v) \<Longrightarrow>
     Notice (''Error updating parent link for '' @ path d) \<in> set (trace (updateEach this cs h))"
proof (induction cs arbitrary: h)
  case Nil
  then show ?case by simp
next
  case (Cons c cs)
  show ?case
  proof (cases "c = d")
    case True
    have "writeRaises this (oid d) (attemptsOn h (oid d))"
      using Cons.prems(2) by simp
    then have "Notice (''Error updating parent link for '' @ path d)
        \<in> set (trace (updateParentLink this c h))"
      using updateParentLink_raising(2) [OF _ Cons.prems(3,4)] True by simp
    then show ?thesis
      using trace_grows_updateEach [of "updateParentLink this c h" this cs] by auto
  next
    case False
    then have "d \<in> set cs"
      using Cons.prems(1) by simp
    moreover have "frontmatter (updateParentLink this c h) (oid d) ''parent'' \<noteq> Some (YString v)"
      using Cons.prems(2,4) by (simp add: raising_unchanged)
    ultimately show ?thesis
      using Cons.IH [of "updateParentLink this c h"] Cons.prems(2,3) by simp
  qed
qed

lemma settled_frontmatter:
  "frontmatter h = frontmatter h' \<Longrightarrow> settled this d h = settled this d h'"
  by (simp add: settled_def split: option.splits)

section \<open>C7: a write that raises\<close>

text \<open>
  C7 (write-failure isolation): let the write of the call on the document \<open>d\<close> raise
  (the \<^verbatim>\<open>parent\<close> field of \<open>d\<close> is not the wanted link, and the writer raises at this
  invocation). The exception leaves the \<^verbatim>\<open>try\<close> block of the call on \<open>d\<close> and is
  caught there: the call returns, having printed the error and shown a notice that names
  the path of \<open>d\<close>, and changes no metadata. In a cascade from the same state: when the
  writer raises for \<open>d\<close> every time and the cascade calls \<open>d\<close>, the notice is shown,
  and the metadata of \<open>d\<close> stays as it was; every other document ends with the
  metadata it would have had if the writes of \<open>d\<close> had not raised; and (with distinct
  file identities) every called document for which the writer never raises ends with its
  wanted link.
\<close>

theorem write_failure_isolation:
  assumes "writeRaises this (oid d) (attemptsOn h (oid d))" and "desired this d = Some v"
    and "frontmatter h (oid d) ''parent'' \<noteq> Some (YString v)"
  shows "fst (tryBody this d h) = Some WriteError \<and>
         updateParentLink this d h =
           h\<lparr>trace := trace h @
             [ProcessFrontMatter (oid d),
              ConsoleError (path d @ '' - error updating parent link:'') WriteError,
              Notice (''Error updating parent link for '' @ path d)]\<rparr> \<and>
         ((\<forall>n. writeRaises this (oid d) n) \<longrightarrow>
            (d \<in> set (cascadeCalls this F) \<longrightarrow>
               Notice (''Error updating parent link for '' @ path d)
                 \<in> set (trace (handleFolderRename this F h))) \<and>
            frontmatter (handleFolderRename this F h) (oid d) = frontmatter h (oid d)) \<and>
         (\<forall>e. oid e \<noteq> oid d \<longrightarrow>
            frontmatter (handleFolderRename this F h) (oid e) =
              frontmatter (handleFolderRename (neverRaisingFor (oid d) this) F h) (oid e)) \<and>
         (inj_on oid (set (getMarkdownFiles this)) \<longrightarrow>
            (\<forall>e\<in>set (cascadeCalls this F).
               (\<forall>n. \<not> writeRaises this (oid e) n) \<longrightarrow>
                 settled this e (handleFolderRename this F h)))"
proof -
  have always: "(\<forall>n. writeRaises this (oid d) n) \<longrightarrow>
      (d \<in> set (cascadeCalls this F) \<longrightarrow>
         Notice (''Error updating parent link for '' @ path d)
           \<in> set (trace (handleFolderRename this F h))) \<and>
      frontmatter (handleFolderRename this F h) (oid d) = frontmatter h (oid d)"
  proof (intro impI conjI)
    assume raises: "\<forall>n. writeRaises this (oid d) n"
    then show "frontmatter (handleFolderRename this F h) (oid d) = frontmatter h (oid d)"
      by (simp add: frontmatter_cascade raising_unchanged_updateEach)
    assume "d \<in> set (cascadeCalls this F)"
    then have "Notice (''Error updating parent link for '' @ path d)
        \<in> set (trace (updateEach this (cascadeCalls this F) h))"
      using raises assms(2,3) by (rule notice_updateEach)
    then have "Notice (''Error updating parent link for '' @ path d)
        \<in> set (withoutLogs (trace (handleFolderRename this F h)))"
      using handleFolderRename_cascadeCalls [of this F h] by (simp add: sameEffect_def)
    then show "Notice (''Error updating parent link for '' @ path d)
        \<in> set (trace (handleFolderRename this F h))"
      by simp
  qed
  have others: "\<forall>e. oid e \<noteq> oid d \<longrightarrow>
      frontmatter (handleFolderRename this F h) (oid e) =
        frontmatter (handleFolderRename (neverRaisingFor (oid d) this) F h) (oid e)"
  proof -
    have "agreeOff (oid d) h h"
      by (simp add: agreeOff_def)
    then have "agreeOff (oid d) (updateEach this (cascadeCalls this F) h)
        (updateEach (neverRaisingFor (oid d) this) (cascadeCalls this F) h)"
      by (rule isolation_updateEach)
    then show ?thesis
      by (simp add: frontmatter_cascade agreeOff_def)
  qed
  have resolved: "inj_on oid (set (getMarkdownFiles this)) \<longrightarrow>
      (\<forall>e\<in>set (cascadeCalls this F).
         (\<forall>n. \<not> writeRaises this (oid e) n) \<longrightarrow> settled this e (handleFolderRename this F h))"
  proof (intro impI ballI)
    fix e
    assume inj: "inj_on oid (set (getMarkdownFiles this))"
      and e: "e \<in> set (cascadeCalls this F)" "\<forall>n. \<not> writeRaises this (oid e) n"
    have "\<forall>f\<in>set (cascadeCalls this F). oid f = oid e \<longrightarrow> f = e"
      using inj e(1) cascadeCalls_subset [of this F] by (meson inj_onD subsetD)
    then have "settled this e (updateEach this (cascadeCalls this F) h)"
      using e by (intro resolved_updateEach)
    then show "settled this e (handleFolderRename this F h)"
      using settled_frontmatter [OF frontmatter_cascade] by blast
  qed
  show ?thesis
    using updateParentLink_raising [OF assms] always others resolved
    by (intro conjI) assumption+
qed

theorem write_failure_isolation_witness:
  "writeRaises exFailing (oid taskNote) (attemptsOn h0 (oid taskNote)) \<and>
   (\<forall>n. writeRaises exFailing (oid taskNote) n) \<and>
   desired exFailing taskNote = Some ''[[Projects]]'' \<and>
   frontmatter h0 (oid taskNote) ''parent'' \<noteq> Some (YString ''[[Projects]]'') \<and>
   taskNote \<in> set (cascadeCalls exFailing exProjects) \<and>
   subNote \<in> set (cascadeCalls exFailing exProjects) \<and>
   inj_on oid (set (getMarkdownFiles exFailing)) \<and>
   trace (updateParentLink exFailing taskNote h0) =
     [ProcessFrontMatter 1,
      ConsoleError ''Projects/Task.md - error updating parent link:'' WriteError,
      Notice ''Error updating parent link for Projects/Task.md''] \<and>
   Notice ''Error updating parent link for Projects/Task.md''
     \<in> set (trace (handleFolderRename exFailing exProjects h0)) \<and>
   frontmatter (handleFolderRename exFailing exProjects h0) (oid taskNote) = Map.empty \<and>
   frontmatter (handleFolderRename exFailing exProjects h0) (oid subNote) ''parent'' =
     Some (YString ''[[Projects]]'')"
proof -
  have a: "writeRaises exFailing (oid taskNote) (attemptsOn h0 (oid taskNote))"
    "desired exFailing taskNote = Some ''[[Projects]]''"
    "frontmatter h0 (oid taskNote) ''parent'' \<noteq> Some (YString ''[[Projects]]'')"
    by (simp_all add: ex_defs code_defs obs_defs)
  note all = write_failure_isolation [OF a, of exProjects]
  have always: "\<forall>n. writeRaises exFailing (oid taskNote) n"
    by (simp add: ex_defs)
  have b: "cascadeCalls exFailing exProjects =
     [projectsNote, taskNote, subNote, shoutNote, projectsNote]"
    by (simp add: ex_defs code_defs)
  have c: "inj_on oid (set (getMarkdownFiles exFailing))"
    by (simp add: ex_defs inj_on_def)
  have d: "\<forall>n. \<not> writeRaises exFailing (oid subNote) n"
    "desired exFailing subNote = Some ''[[Projects]]''"
    "path taskNote = ''Projects/Task.md''" "oid taskNote = 1" "trace h0 = []"
    "frontmatter h0 1 = Map.empty"
    by (simp_all add: ex_defs code_defs obs_defs)
  have "\<forall>e\<in>set (cascadeCalls exFailing exProjects).
     (\<forall>n. \<not> writeRaises exFailing (oid e) n) \<longrightarrow>
       settled exFailing e (handleFolderRename exFailing exProjects h0)"
    using all c by blast
  then have e: "settled exFailing subNote (handleFolderRename exFailing exProjects h0)"
    using b d(1) by simp
  have "updateParentLink exFailing taskNote h0 =
      h0\<lparr>trace := trace h0 @
        [ProcessFrontMatter (oid taskNote),
         ConsoleError (path taskNote @ '' - error updating parent link:'') WriteError,
         Notice (''Error updating parent link for '' @ path taskNote)]\<rparr>"
    using all by blast
  then have "trace (updateParentLink exFailing taskNote h0) =
      trace (h0\<lparr>trace := trace h0 @
        [ProcessFrontMatter (oid taskNote),
         ConsoleError (path taskNote @ '' - error updating parent link:'') WriteError,
         Notice (''Error updating parent link for '' @ path taskNote)]\<rparr>)"
    by (rule arg_cong)
  then have f: "trace (updateParentLink exFailing taskNote h0) =
     [ProcessFrontMatter 1,
      ConsoleError ''Projects/Task.md - error updating parent link:'' WriteError,
      Notice ''Error updating parent link for Projects/Task.md'']"
    using d by simp
  have "(taskNote \<in> set (cascadeCalls exFailing exProjects) \<longrightarrow>
      Notice (''Error updating parent link for '' @ path taskNote)
        \<in> set (trace (handleFolderRename exFailing exProjects h0))) \<and>
      frontmatter (handleFolderRename exFailing exProjects h0) (oid taskNote) =
      frontmatter h0 (oid taskNote)"
    using all always by blast
  then have g: "Notice ''Error updating parent link for Projects/Task.md''
     \<in> set (trace (handleFolderRename exFailing exProjects h0))"
    and k: "frontmatter (handleFolderRename exFailing exProjects h0) (oid taskNote) =
      Map.empty"
    using b d by simp_all
  show ?thesis
    using a always b c e f g k d(2) by (simp add: settled_def)
qed

end
